theory Spec2Isabelle
  imports Complex_Main "HOL-Library.AList"
begin

section \<open>The countdown timer (the Timer component)\<close>

text \<open>
  The component keeps two pieces of state: \<open>timeLeft\<close> (\<open>useState(duration)\<close>) and the
  latch \<open>timeUpCalledRef\<close> (\<open>useRef(false)\<close>). The interval callback passes the updater
  below to \<open>setTimeLeft\<close>; the updater is the only place that calls \<open>onTimeUp\<close>.
  \<open>duration\<close> is the prop of the last render: React compares it with the prop of the
  next render to decide whether the effect on \<open>[duration]\<close> runs.
  Seconds are JavaScript numbers; they are modelled as unbounded integers, so a negative
  value is representable and its absence is a theorem, not a typing artefact.
\<close>

record timer =
  duration :: int
  timeLeft :: int
  timeUpCalledRef :: bool

text \<open>
  One run of the updater inside \<open>setInterval\<close>. The second component tells whether
  \<open>onTimeUp()\<close> was invoked by this tick.
\<close>

definition tick :: "timer \<Rightarrow> timer \<times> bool" where
  "tick t =
     (if timeLeft t \<le> 1 \<and> \<not> timeUpCalledRef t
      then (t\<lparr>timeUpCalledRef := True, timeLeft := 0\<rparr>, True)
      else if timeLeft t \<le> 1
      then (t\<lparr>timeLeft := 0\<rparr>, False)
      else (t\<lparr>timeLeft := timeLeft t - 1\<rparr>, False))"

text \<open>
  Mounting with the prop \<open>d\<close>: \<open>useState(duration)\<close>, \<open>useRef(false)\<close>, and the first run
  of the effect on \<open>[duration]\<close>, which stores the same two values again.
\<close>

definition mount :: "int \<Rightarrow> timer" where
  "mount d = \<lparr>duration = d, timeLeft = d, timeUpCalledRef = False\<rparr>"

text \<open>
  A later render with the prop \<open>d\<close>. The effect
  \<open>setTimeLeft(duration); timeUpCalledRef.current = false\<close> has the dependency list
  \<open>[duration]\<close>: it runs when the prop differs from the one of the render before, and
  not otherwise.
\<close>

definition setDuration :: "int \<Rightarrow> timer \<Rightarrow> timer" where
  "setDuration d t =
     (if d = duration t then t
      else t\<lparr>duration := d, timeLeft := d, timeUpCalledRef := False\<rparr>)"

text \<open>\<open>ticks n t\<close>: the timer after \<open>n\<close> interval callbacks, and how often \<open>onTimeUp\<close> ran.\<close>

fun ticks :: "nat \<Rightarrow> timer \<Rightarrow> timer \<times> nat" where
  "ticks 0 t = (t, 0)"
| "ticks (Suc n) t =
     (let (t1, fired) = tick t; (t2, k) = ticks n t1
      in (t2, (if fired then 1 else 0) + k))"

section \<open>The test session (the TestInterface page)\<close>

subsection \<open>Questions, answers and the submission payload\<close>

text \<open>
  A question carries two identifier fields; the page always reads
  \<open>question.question_id || question.id\<close>. Either field may be absent (\<open>undefined\<close>, here
  \<open>None\<close>); identifiers are numbers, and \<open>||\<close> skips a left operand that is \<open>undefined\<close>
  or \<open>0\<close>. The other fields of a question (text, options) are never read by the handlers
  modelled here.
\<close>

record question =
  q_question_id :: "int option"
  q_id :: "int option"

definition truthy :: "int option \<Rightarrow> bool" where
  "truthy v = (case v of None \<Rightarrow> False | Some n \<Rightarrow> n \<noteq> 0)"

definition questionId :: "question \<Rightarrow> int option" where
  "questionId q = (if truthy (q_question_id q) then q_question_id q else q_id q)"

record answer =
  question_id :: "int option"
  answer :: string
  time_taken :: int

text \<open>
  The \<open>answers\<close> state is an object keyed by the question identifier. It is modelled as
  an association list with at most one entry per key: \<open>{...prev, [k]: v}\<close> is
  \<open>AList.update k v\<close>, \<open>delete copy[k]\<close> is \<open>AList.delete k\<close>, \<open>answers[k]\<close> is
  \<open>map_of answers k\<close>, and \<open>Object.keys(answers).length === 0\<close> is \<open>answers = []\<close>.
\<close>

type_synonym answers = "(int option \<times> answer) list"

text \<open>The \<open>questions.map(...)\<close> of \<open>handleSubmitTest\<close> that builds \<open>answersArray\<close>.\<close>

definition answersArray :: "question list \<Rightarrow> answers \<Rightarrow> answer list" where
  "answersArray qs ans =
     map (\<lambda>q. case map_of ans (questionId q) of
                Some userAnswer \<Rightarrow> userAnswer
              | None \<Rightarrow> \<lparr>question_id = questionId q, answer = '''', time_taken = 0\<rparr>) qs"

subsection \<open>Session state\<close>

text \<open>
  One field per \<open>useState\<close>/\<open>useRef\<close> of the component, plus two pieces of state that
  React keeps implicitly:
  \<^item> \<open>pending\<close>: the suspended rest of \<open>handleSubmitTest\<close> while it awaits
    \<open>testAPI.submitTest\<close>, holding its \<open>autoSubmit\<close> argument;
  \<^item> \<open>monitorAnswers\<close>: the \<open>answers\<close> object seen by the focus listeners. The listeners
    are installed by an effect whose dependency list is
    \<open>[testSubmitted, warningCount, isSubmitting]\<close>, so they (and the \<open>handleSubmitTest\<close>
    they call) belong to the render in which one of these three last changed.
  Every other handler is re-created at each render and reads the current state.
\<close>

record session =
  questions :: "question list"
  currentQuestionIndex :: int
  answers :: answers
  timeUp :: bool
  testSubmitted :: bool
  warningCount :: nat
  isSubmitting :: bool
  submissionStartedRef :: bool
  testStartTime :: int
  pending :: "bool option"
  monitorAnswers :: answers

definition initial :: "question list \<Rightarrow> int \<Rightarrow> session" where
  "initial qs startTime =
     \<lparr>questions = qs, currentQuestionIndex = 0, answers = [], timeUp = False,
      testSubmitted = False, warningCount = 0, isSubmitting = False,
      submissionStartedRef = False, testStartTime = startTime, pending = None,
      monitorAnswers = []\<rparr>"

text \<open>\<open>questions[currentQuestionIndex]\<close>: \<open>undefined\<close> outside the array.\<close>

definition currentQuestion :: "session \<Rightarrow> question option" where
  "currentQuestion s =
     (if 0 \<le> currentQuestionIndex s \<and> currentQuestionIndex s < int (length (questions s))
      then Some (questions s ! nat (currentQuestionIndex s)) else None)"

text \<open>What a handler does to the outside world.\<close>

datatype notice =
  FirstWarning | FinalWarning | AutoSubmitted | AnswerAtLeastOne | TimeIsUp
  | SubmittedOk | SubmitFailed | AutoSubmitFailed

datatype effect = Toast notice | SubmitTest "answer list" | SetTestResults | ShowResults

datatype js_error = TypeError

subsection \<open>Answer selection and navigation\<close>

text \<open>
  \<open>handleAnswerSelect\<close> and \<open>handleClearAnswer\<close> read a property of \<open>currentQuestion\<close>;
  on \<open>undefined\<close> that is a \<open>TypeError\<close>. \<open>now\<close> is \<open>Date.now()\<close>, in milliseconds.
\<close>

definition handleAnswerSelect :: "string \<Rightarrow> int \<Rightarrow> session \<Rightarrow> js_error + session" where
  "handleAnswerSelect optionKey now s =
     (case currentQuestion s of
        None \<Rightarrow> Inl TypeError
      | Some q \<Rightarrow>
          Inr (s\<lparr>answers :=
                 AList.update (questionId q)
                   \<lparr>question_id = questionId q, answer = optionKey,
                    time_taken = (now - testStartTime s) div 1000\<rparr>
                   (answers s)\<rparr>))"

definition handleClearAnswer :: "session \<Rightarrow> js_error + session" where
  "handleClearAnswer s =
     (case currentQuestion s of
        None \<Rightarrow> Inl TypeError
      | Some q \<Rightarrow> Inr (s\<lparr>answers := AList.delete (questionId q) (answers s)\<rparr>))"

definition handleNext :: "session \<Rightarrow> session" where
  "handleNext s =
     (if currentQuestionIndex s < int (length (questions s)) - 1
      then s\<lparr>currentQuestionIndex := currentQuestionIndex s + 1\<rparr> else s)"

definition handlePrevious :: "session \<Rightarrow> session" where
  "handlePrevious s =
     (if currentQuestionIndex s > 0
      then s\<lparr>currentQuestionIndex := currentQuestionIndex s - 1\<rparr> else s)"

definition handleQuestionJump :: "int \<Rightarrow> session \<Rightarrow> session" where
  "handleQuestionJump index s = s\<lparr>currentQuestionIndex := index\<rparr>"

subsection \<open>Submission\<close>

text \<open>
  \<open>handleSubmitTest autoSubmit confirmed s\<close> is the function up to its \<open>await\<close>;
  \<open>confirmed\<close> is what \<open>window.confirm\<close> returns, consulted for a manual submit only.
  The ref assignment and \<open>setIsSubmitting(true)\<close> come before the network call is
  issued.
\<close>

definition handleSubmitTest :: "bool \<Rightarrow> bool \<Rightarrow> session \<Rightarrow> session \<times> effect list" where
  "handleSubmitTest autoSubmit confirmed s =
     (if isSubmitting s \<or> testSubmitted s \<or> submissionStartedRef s then (s, [])
      else if \<not> autoSubmit \<and> answers s = [] then (s, [Toast AnswerAtLeastOne])
      else if \<not> autoSubmit \<and> \<not> confirmed then (s, [])
      else (s\<lparr>submissionStartedRef := True, isSubmitting := True, pending := Some autoSubmit\<rparr>,
            [SubmitTest (answersArray (questions s) (answers s))]))"

text \<open>
  How the awaited call ends: the promise resolves with \<open>success\<close> true, resolves with
  \<open>success\<close> false, or rejects (network error, non-2xx status: axios throws).
\<close>

datatype outcome = Succeeded | Rejected | Threw

text \<open>The rest of \<open>handleSubmitTest\<close> after the \<open>await\<close>: the \<open>if\<close>/\<open>else\<close> and the \<open>catch\<close>.\<close>

definition handleSubmitTest_resume :: "outcome \<Rightarrow> session \<Rightarrow> session \<times> effect list" where
  "handleSubmitTest_resume r s =
     (case pending s of
        None \<Rightarrow> (s, [])
      | Some autoSubmit \<Rightarrow>
          (case r of
             Succeeded \<Rightarrow>
               (s\<lparr>testSubmitted := True, pending := None\<rparr>,
                [SetTestResults, Toast SubmittedOk, ShowResults])
           | Rejected \<Rightarrow>
               (s\<lparr>isSubmitting := False, submissionStartedRef := False, pending := None\<rparr>,
                [Toast SubmitFailed])
           | Threw \<Rightarrow>
               (if autoSubmit
                then (s\<lparr>testSubmitted := True, pending := None\<rparr>,
                      [Toast AutoSubmitFailed, ShowResults])
                else (s\<lparr>isSubmitting := False, submissionStartedRef := False, pending := None\<rparr>,
                      [Toast SubmitFailed]))))"

text \<open>
  \<open>handleTimeUp\<close> calls \<open>handleSubmitTest(true)\<close> in the same render, so the callee still
  sees \<open>isSubmitting\<close> as it was before \<open>setIsSubmitting(true)\<close>.
\<close>

definition handleTimeUp :: "session \<Rightarrow> session \<times> effect list" where
  "handleTimeUp s =
     (if timeUp s \<or> isSubmitting s \<or> testSubmitted s \<or> submissionStartedRef s then (s, [])
      else (let (s1, out) = handleSubmitTest True False s
            in (s1\<lparr>timeUp := True, isSubmitting := True\<rparr>, Toast TimeIsUp # out)))"

subsection \<open>The focus monitor\<close>

definition MAX_WARNINGS :: nat where
  "MAX_WARNINGS = 2"

text \<open>
  The body shared by \<open>handleVisibilityChange\<close> and \<open>handleBlur\<close> (the two differ in the
  wording of their toasts only). The \<open>handleSubmitTest\<close> it calls is the one of the
  listeners' render: it builds the payload from \<open>monitorAnswers\<close>.
\<close>

definition countWarning :: "session \<Rightarrow> session \<times> effect list" where
  "countWarning s =
     (let newWarningCount = warningCount s + 1;
          s1 = s\<lparr>warningCount := newWarningCount\<rparr>
      in if newWarningCount = 1 then (s1, [Toast FirstWarning])
         else if newWarningCount = 2 then (s1, [Toast FinalWarning])
         else if newWarningCount > MAX_WARNINGS
         then (let (s2, out) = handleSubmitTest True False (s1\<lparr>answers := monitorAnswers s\<rparr>)
               in (s2\<lparr>answers := answers s\<rparr>, Toast AutoSubmitted # out))
         else (s1, []))"

text \<open>\<open>hidden\<close> is \<open>document.hidden\<close> at the time of the event.\<close>

definition handleVisibilityChange :: "bool \<Rightarrow> session \<Rightarrow> session \<times> effect list" where
  "handleVisibilityChange hidden s =
     (if hidden \<and> \<not> isSubmitting s \<and> \<not> testSubmitted s then countWarning s else (s, []))"

definition handleBlur :: "bool \<Rightarrow> session \<Rightarrow> session \<times> effect list" where
  "handleBlur hidden s =
     (if \<not> hidden \<and> \<not> isSubmitting s \<and> \<not> testSubmitted s then countWarning s else (s, []))"

subsection \<open>Events and runs\<close>

datatype event =
  AnswerSelect string int
  | ClearAnswer
  | Next
  | Previous
  | QuestionJump int
  | SubmitClick bool
  | TimeUp
  | VisibilityChange bool
  | Blur bool
  | SubmitResponse outcome

text \<open>
  After an event the component re-renders; the focus effect runs again, and the
  listeners see the new \<open>answers\<close>, exactly when one of its dependencies changed.
\<close>

definition rerender :: "session \<Rightarrow> session \<Rightarrow> session" where
  "rerender old new =
     (if testSubmitted new = testSubmitted old \<and> warningCount new = warningCount old
         \<and> isSubmitting new = isSubmitting old
      then new else new\<lparr>monitorAnswers := answers new\<rparr>)"

text \<open>
  The answer options and the clear button are rendered only when there is a current
  question, so the two handlers that would throw are never reached without one.
\<close>

definition handleEvent :: "event \<Rightarrow> session \<Rightarrow> session \<times> effect list" where
  "handleEvent e s =
     (case e of
        AnswerSelect optionKey now \<Rightarrow>
          (case handleAnswerSelect optionKey now s of Inl _ \<Rightarrow> (s, []) | Inr s1 \<Rightarrow> (s1, []))
      | ClearAnswer \<Rightarrow> (case handleClearAnswer s of Inl _ \<Rightarrow> (s, []) | Inr s1 \<Rightarrow> (s1, []))
      | Next \<Rightarrow> (handleNext s, [])
      | Previous \<Rightarrow> (handlePrevious s, [])
      | QuestionJump index \<Rightarrow> (handleQuestionJump index s, [])
      | SubmitClick confirmed \<Rightarrow> handleSubmitTest False confirmed s
      | TimeUp \<Rightarrow> handleTimeUp s
      | VisibilityChange hidden \<Rightarrow> handleVisibilityChange hidden s
      | Blur hidden \<Rightarrow> handleBlur hidden s
      | SubmitResponse r \<Rightarrow> handleSubmitTest_resume r s)"

definition step :: "event \<Rightarrow> session \<Rightarrow> session \<times> effect list" where
  "step e s = (let (s1, out) = handleEvent e s in (rerender s s1, out))"

fun run :: "event list \<Rightarrow> session \<Rightarrow> session \<times> effect list" where
  "run [] s = (s, [])"
| "run (e # es) s =
     (let (s1, out1) = step e s; (s2, out2) = run es s1 in (s2, out1 @ out2))"

fun isSubmitCall :: "effect \<Rightarrow> bool" where
  "isSubmitCall (SubmitTest _) = True"
| "isSubmitCall _ = False"

definition submitCalls :: "effect list \<Rightarrow> nat" where
  "submitCalls out = length (filter isSubmitCall out)"








subsection \<open>Predicates used in the statements below\<close>

text \<open>Every entry of an \<open>answers\<close> object is stored under its own \<open>question_id\<close>.\<close>

definition keyed :: "answers \<Rightarrow> bool" where
  "keyed ans = list_all (\<lambda>(k, a). question_id a = k) ans"

definition wellKeyed :: "session \<Rightarrow> bool" where
  "wellKeyed s = (keyed (answers s) \<and> keyed (monitorAnswers s))"

text \<open>The ref and the \<open>isSubmitting\<close> state say the same thing between events.\<close>

definition flagsAgree :: "session \<Rightarrow> bool" where
  "flagsAgree s = (submissionStartedRef s = isSubmitting s)"

text \<open>
  A focus loss that a listener counts: the tab became hidden (\<open>visibilitychange\<close> with
  \<open>document.hidden\<close>), or the window lost focus while the tab is visible (\<open>blur\<close>).
\<close>

fun isFocusLoss :: "event \<Rightarrow> bool" where
  "isFocusLoss (VisibilityChange hidden) = hidden"
| "isFocusLoss (Blur hidden) = (\<not> hidden)"
| "isFocusLoss _ = False"


text \<open>Sample question lists for the concrete runs below.\<close>

definition q1 :: question where
  "q1 = \<lparr>q_question_id = Some 1, q_id = None\<rparr>"

definition q2 :: question where
  "q2 = \<lparr>q_question_id = Some 2, q_id = None\<rparr>"


text \<open>Two questions that carry their identifier in the \<open>id\<close> field.\<close>

definition qa :: question where
  "qa = \<lparr>q_question_id = None, q_id = Some 1\<rparr>"

definition qb :: question where
  "qb = \<lparr>q_question_id = None, q_id = Some 2\<rparr>"

section \<open>The results page (the TestResults page) and the scoring rule\<close>

text \<open>
  The page shows the \<open>results\<close> object of the server's reply. Fields the page guards
  with \<open>||\<close> may be missing. \<open>a || b\<close> on a number that may be missing: \<open>b\<close> when \<open>a\<close> is
  \<open>undefined\<close> or \<open>0\<close>.
\<close>

record testResults =
  correct_answers :: int
  wrong_answers :: "int option"
  not_attempted :: "int option"
  total_questions :: int
  neet_score :: "int option"
  max_score :: "int option"
  score_percentage :: "rat option"

definition orElse :: "int option \<Rightarrow> int \<Rightarrow> int" where
  "orElse a b = (case a of Some n \<Rightarrow> if truthy a then n else b | None \<Rightarrow> b)"

text \<open>
  The three expressions of the "Your Score Calculation" panel:
  \<open>wrong_answers || (total_questions - correct_answers - (not_attempted || 0))\<close>,
  \<open>neet_score || (correct_answers * 4 - wrong)\<close> and \<open>max_score || (total_questions * 4)\<close>.
\<close>

definition wrongShown :: "testResults \<Rightarrow> int" where
  "wrongShown r =
     orElse (wrong_answers r)
       (total_questions r - correct_answers r - orElse (not_attempted r) 0)"

definition totalScoreShown :: "testResults \<Rightarrow> int" where
  "totalScoreShown r = orElse (neet_score r) (correct_answers r * 4 - wrongShown r)"

definition maxScoreShown :: "testResults \<Rightarrow> int" where
  "maxScoreShown r = orElse (max_score r) (total_questions r * 4)"

text \<open>
  Modelled from the spec: the Scoring Engine runs on the server and is not among the
  sources. Its raw score is \<open>4 * correct - 1 * wrong\<close>.
\<close>

definition raw_score :: "nat \<Rightarrow> nat \<Rightarrow> int" where
  "raw_score correct wrong = 4 * int correct - 1 * int wrong"

text \<open>
  Modelled from the spec: the Scoring Engine's percentage,
  \<open>max(raw_score, 0) / (questions.length * 4) * 100\<close>, as an exact rational. The spec
  gives no value for an empty question list; that case is \<open>None\<close> here.
\<close>

definition percentage :: "int \<Rightarrow> nat \<Rightarrow> rat option" where
  "percentage raw k =
     (if k = 0 then None else Some (of_int (max raw 0) / of_int (int k * 4) * 100))"

text \<open>
  Modelled from the spec: the aggregate part of the Scoring Engine's \<open>TestResult\<close> for
  given counts of correct, wrong and not attempted questions, in the field names the
  results page reads.
\<close>

definition score :: "nat \<Rightarrow> nat \<Rightarrow> nat \<Rightarrow> testResults" where
  "score correct wrong unattempted =
     \<lparr>correct_answers = int correct,
      wrong_answers = Some (int wrong),
      not_attempted = Some (int unattempted),
      total_questions = int (correct + wrong + unattempted),
      neet_score = Some (raw_score correct wrong),
      max_score = Some (int (correct + wrong + unattempted) * 4),
      score_percentage = percentage (raw_score correct wrong) (correct + wrong + unattempted)\<rparr>"

section \<open>Lemmas and claims: the timer\<close>

subsection \<open>Facts about single ticks and runs of ticks\<close>

lemma tick_timeLeft:
  "timeLeft (fst (tick t)) = (if timeLeft t \<le> 1 then 0 else timeLeft t - 1)"
  by (simp add: tick_def)

lemma tick_latch:
  "timeUpCalledRef (fst (tick t)) = (timeUpCalledRef t \<or> timeLeft t \<le> 1)"
  by (auto simp: tick_def)

lemma tick_fired:
  "snd (tick t) = (timeLeft t \<le> 1 \<and> \<not> timeUpCalledRef t)"
  by (simp add: tick_def)

lemma ticks_Suc:
  "ticks (Suc n) t =
     (fst (ticks n (fst (tick t))), (if snd (tick t) then 1 else 0) + snd (ticks n (fst (tick t))))"
  by (simp add: case_prod_beta Let_def)

lemma ticks_timeLeft:
  "0 \<le> timeLeft t \<Longrightarrow> timeLeft (fst (ticks n t)) = max (timeLeft t - int n) 0"
proof (induction n arbitrary: t)
  case 0
  then show ?case by simp
next
  case (Suc n)
  have nonneg: "0 \<le> timeLeft (fst (tick t))"
    using Suc.prems by (simp add: tick_timeLeft)
  show ?case
    using Suc.IH [OF nonneg] Suc.prems
    by (simp only: ticks_Suc fst_conv tick_timeLeft) auto
qed

lemma ticks_latched_silent:
  "timeUpCalledRef t \<Longrightarrow> snd (ticks n t) = 0 \<and> timeUpCalledRef (fst (ticks n t))"
proof (induction n arbitrary: t)
  case 0
  then show ?case by simp
next
  case (Suc n)
  have "timeUpCalledRef (fst (tick t))"
    using Suc.prems by (simp add: tick_latch)
  from Suc.IH [OF this] Suc.prems show ?case
    by (simp only: ticks_Suc fst_conv snd_conv tick_fired) simp
qed

lemma ticks_latch:
  "0 \<le> timeLeft t \<Longrightarrow>
     timeUpCalledRef (fst (ticks n t)) = (timeUpCalledRef t \<or> (0 < n \<and> timeLeft t \<le> int n))"
proof (induction n arbitrary: t)
  case 0
  then show ?case by simp
next
  case (Suc n)
  have nonneg: "0 \<le> timeLeft (fst (tick t))"
    using Suc.prems by (simp add: tick_timeLeft)
  show ?case
    using Suc.IH [OF nonneg] Suc.prems
    by (simp only: ticks_Suc fst_conv tick_timeLeft tick_latch) auto
qed

lemma tick_duration: "duration (fst (tick t)) = duration t"
  by (simp add: tick_def)

lemma ticks_duration: "duration (fst (ticks n t)) = duration t"
proof (induction n arbitrary: t)
  case 0
  then show ?case by simp
next
  case (Suc n)
  then show ?case by (simp only: ticks_Suc fst_conv tick_duration)
qed

lemma ticks_fired_count:
  "1 \<le> timeLeft t \<Longrightarrow> \<not> timeUpCalledRef t \<Longrightarrow>
     snd (ticks n t) = (if timeLeft t \<le> int n then 1 else 0)"
proof (induction n arbitrary: t)
  case 0
  then show ?case by simp
next
  case (Suc n)
  show ?case
  proof (cases "timeLeft t = 1")
    case True
    then have "timeUpCalledRef (fst (tick t))" by (simp add: tick_latch)
    then have "snd (ticks n (fst (tick t))) = 0"
      using ticks_latched_silent by blast
    with True Suc.prems show ?thesis
      by (simp only: ticks_Suc snd_conv tick_fired) simp
  next
    case False
    with Suc.prems have big: "2 \<le> timeLeft t" by simp
    then have a: "1 \<le> timeLeft (fst (tick t))" and b: "\<not> timeUpCalledRef (fst (tick t))"
      using Suc.prems by (simp_all add: tick_timeLeft tick_latch)
    from Suc.IH [OF a b] big Suc.prems show ?thesis
      by (simp only: ticks_Suc snd_conv tick_fired tick_timeLeft) auto
  qed
qed

subsection \<open>Claims about the timer\<close>

text \<open>
  Claim C5. For every duration \<open>d \<ge> 1\<close> the timer invokes \<open>onTimeUp\<close> exactly once: no
  invocation during the first \<open>d - 1\<close> ticks, one on the tick that takes \<open>timeLeft\<close> to 0,
  and none on any further tick however many follow (so after \<open>n \<ge> d\<close> ticks the count is
  exactly 1, and \<open>m\<close> more ticks add nothing). With duration 1 the very first tick reaches
  0 and fires. Resetting the duration, that is a render with a duration \<open>d'\<close> other than
  the current one, clears the latch and restarts the countdown at \<open>d'\<close>, so that for
  \<open>d' \<ge> 1\<close> the timer fires once more, on the tick \<open>d'\<close> after the reset and on no other.
  A render with the unchanged duration resets nothing.
\<close>

theorem timer_fires_exactly_once:
  assumes "1 \<le> d"
  shows "snd (ticks n (mount d)) = (if d \<le> int n then 1 else 0)
       \<and> (d \<le> int n \<longrightarrow> timeLeft (fst (ticks n (mount d))) = 0
              \<and> snd (ticks m (fst (ticks n (mount d)))) = 0)
       \<and> tick (mount 1) = (\<lparr>duration = 1, timeLeft = 0, timeUpCalledRef = True\<rparr>, True)
       \<and> (d' \<noteq> d \<longrightarrow>
            \<not> timeUpCalledRef (setDuration d' (fst (ticks n (mount d))))
          \<and> timeLeft (setDuration d' (fst (ticks n (mount d)))) = d'
          \<and> (1 \<le> d' \<longrightarrow>
               snd (ticks m (setDuration d' (fst (ticks n (mount d)))))
                 = (if d' \<le> int m then 1 else 0)))
       \<and> setDuration d (fst (ticks n (mount d))) = fst (ticks n (mount d))"
proof -
  have dur: "duration (fst (ticks n (mount d))) = d"
    by (simp add: ticks_duration mount_def)
  have start: "1 \<le> timeLeft (mount d)" "\<not> timeUpCalledRef (mount d)" "0 \<le> timeLeft (mount d)"
    using assms by (simp_all add: mount_def)
  have count: "snd (ticks n (mount d)) = (if d \<le> int n then 1 else 0)"
    using ticks_fired_count [OF start(1,2), of n] by (simp add: mount_def)
  have left: "timeLeft (fst (ticks n (mount d))) = max (d - int n) 0"
    using ticks_timeLeft [OF start(3), of n] by (simp add: mount_def)
  have after: "snd (ticks m (fst (ticks n (mount d)))) = 0" if "d \<le> int n"
  proof -
    have "0 < n" using that assms by (cases n) auto
    then have "timeUpCalledRef (fst (ticks n (mount d)))"
      using ticks_latch [OF start(3), of n] that by (simp add: mount_def)
    then show ?thesis using ticks_latched_silent by blast
  qed
  have first: "tick (mount 1) = (\<lparr>duration = 1, timeLeft = 0, timeUpCalledRef = True\<rparr>, True)"
    by (simp add: tick_def mount_def)
  have reset: "\<not> timeUpCalledRef (setDuration d' (fst (ticks n (mount d))))"
    "timeLeft (setDuration d' (fst (ticks n (mount d)))) = d'"
    if "d' \<noteq> d"
    using that dur by (simp_all add: setDuration_def)
  have again: "snd (ticks m (setDuration d' (fst (ticks n (mount d)))))
                 = (if d' \<le> int m then 1 else 0)"
    if "d' \<noteq> d" "1 \<le> d'"
  proof -
    have "1 \<le> timeLeft (setDuration d' (fst (ticks n (mount d))))"
      using reset(2) [OF that(1)] that(2) by simp
    from ticks_fired_count [OF this reset(1) [OF that(1)], of m]
    show ?thesis by (simp add: reset(2) [OF that(1)])
  qed
  have same: "setDuration d (fst (ticks n (mount d))) = fst (ticks n (mount d))"
    using dur by (simp add: setDuration_def)
  show ?thesis
    using count left after first reset again same by simp
qed

theorem timer_fires_exactly_once_witness:
  "(1::int) \<le> 1
     \<and> snd (ticks 4 (mount 1)) = 1
     \<and> timeLeft (fst (ticks 4 (mount 1))) = 0
     \<and> snd (ticks 3 (fst (ticks 4 (mount 1)))) = 0
     \<and> snd (ticks 3 (setDuration 2 (fst (ticks 4 (mount 1))))) = 1
     \<and> snd (ticks 1 (setDuration 2 (fst (ticks 4 (mount 1))))) = 0
     \<and> timeUpCalledRef (setDuration 1 (fst (ticks 4 (mount 1))))"
proof -
  have latched: "timeUpCalledRef (fst (ticks 4 (mount 1)))" by code_simp
  from timer_fires_exactly_once [of 1 4 3 2] timer_fires_exactly_once [of 1 4 1 2] latched
  show ?thesis by simp
qed

text \<open>
  Claim C10. Starting from any duration \<open>d \<ge> 0\<close>, \<open>timeLeft\<close> is never negative: after
  any number of ticks it is \<open>max (d - n) 0\<close>; each further tick either takes one second off
  or holds the value at 0; and once it is 0 it stays 0 under any number of ticks.
\<close>

theorem timer_timeLeft_nonneg:
  assumes "0 \<le> d"
  shows "0 \<le> timeLeft (fst (ticks n (mount d)))
       \<and> timeLeft (fst (ticks n (mount d))) = max (d - int n) 0
       \<and> (timeLeft (fst (tick (fst (ticks n (mount d))))) = timeLeft (fst (ticks n (mount d))) - 1
            \<or> (timeLeft (fst (ticks n (mount d))) = 0
                \<and> timeLeft (fst (tick (fst (ticks n (mount d))))) = 0))
       \<and> (timeLeft (fst (ticks n (mount d))) = 0
            \<longrightarrow> timeLeft (fst (ticks m (fst (ticks n (mount d))))) = 0)"
proof -
  let ?t = "fst (ticks n (mount d))"
  have "0 \<le> timeLeft (mount d)" using assms by (simp add: mount_def)
  from ticks_timeLeft [OF this, of n]
  have left: "timeLeft ?t = max (d - int n) 0" by (simp add: mount_def)
  then have nonneg: "0 \<le> timeLeft ?t" by simp
  have step: "timeLeft (fst (tick ?t)) = timeLeft ?t - 1
              \<or> (timeLeft ?t = 0 \<and> timeLeft (fst (tick ?t)) = 0)"
    using nonneg by (simp only: tick_timeLeft) auto
  have stay: "timeLeft (fst (ticks m ?t)) = 0" if "timeLeft ?t = 0"
    using ticks_timeLeft [OF nonneg, of m] that by simp
  show ?thesis using left nonneg step stay by blast
qed

theorem timer_timeLeft_nonneg_witness:
  "(0::int) \<le> 3
     \<and> timeLeft (fst (ticks 2 (mount 3))) = 1
     \<and> timeLeft (fst (ticks 5 (mount 3))) = 0
     \<and> timeLeft (fst (ticks 7 (fst (ticks 5 (mount 3))))) = 0"
  using timer_timeLeft_nonneg [of 3 2 0] timer_timeLeft_nonneg [of 3 5 7] by simp

section \<open>Lemmas: runs of the session\<close>

lemma run_Cons:
  "run (e # es) s = (fst (run es (fst (step e s))), snd (step e s) @ snd (run es (fst (step e s))))"
  by (simp add: case_prod_beta Let_def)

lemma submitCalls_simps:
  "submitCalls [] = 0"
  "submitCalls (SubmitTest p # out) = Suc (submitCalls out)"
  "submitCalls (Toast n # out) = submitCalls out"
  "submitCalls (SetTestResults # out) = submitCalls out"
  "submitCalls (ShowResults # out) = submitCalls out"
  "submitCalls (out1 @ out2) = submitCalls out1 + submitCalls out2"
  by (simp_all add: submitCalls_def)

lemma rerender_fields:
  "submissionStartedRef (rerender s s1) = submissionStartedRef s1"
  "isSubmitting (rerender s s1) = isSubmitting s1"
  "testSubmitted (rerender s s1) = testSubmitted s1"
  "warningCount (rerender s s1) = warningCount s1"
  "timeUp (rerender s s1) = timeUp s1"
  "pending (rerender s s1) = pending s1"
  "answers (rerender s s1) = answers s1"
  "questions (rerender s s1) = questions s1"
  "currentQuestionIndex (rerender s s1) = currentQuestionIndex s1"
  "testStartTime (rerender s s1) = testStartTime s1"
  by (simp_all add: rerender_def)

lemma rerender_same: "rerender s s = s"
  by (simp add: rerender_def)

lemma step_fst: "fst (step e s) = rerender s (fst (handleEvent e s))"
  and step_snd: "snd (step e s) = snd (handleEvent e s)"
  by (simp_all add: step_def case_prod_beta)

subsection \<open>What never changes, and what stays well-formed\<close>

lemma handleEvent_questions: "questions (fst (handleEvent e s)) = questions s"
proof (cases e)
  case (SubmitResponse r)
  then show ?thesis
    by (cases r) (simp_all add: handleEvent_def handleSubmitTest_resume_def split: option.split)
qed (simp_all add: handleEvent_def handleAnswerSelect_def handleClearAnswer_def handleNext_def
      handlePrevious_def handleQuestionJump_def handleSubmitTest_def handleTimeUp_def
      handleVisibilityChange_def handleBlur_def countWarning_def Let_def split: option.split)

lemma step_questions: "questions (fst (step e s)) = questions s"
  by (simp add: step_fst rerender_fields handleEvent_questions)

lemma run_questions: "questions (fst (run evs s)) = questions s"
  by (induction evs arbitrary: s) (simp_all add: run_Cons step_questions del: run.simps(2))

lemma keyed_Nil: "keyed []"
  by (simp add: keyed_def)

lemma keyed_update: "keyed ans \<Longrightarrow> question_id a = k \<Longrightarrow> keyed (AList.update k a ans)"
  by (induction ans) (auto simp: keyed_def)

lemma keyed_delete: "keyed ans \<Longrightarrow> keyed (AList.delete k ans)"
  by (induction ans) (auto simp: keyed_def)

lemma keyed_map_of: "keyed ans \<Longrightarrow> map_of ans k = Some a \<Longrightarrow> question_id a = k"
  by (induction ans) (auto simp: keyed_def split: if_splits)

lemma handleEvent_keyed:
  assumes "keyed (answers s)"
  shows "keyed (answers (fst (handleEvent e s)))"
  using assms
proof (cases e)
  case (SubmitResponse r)
  with assms show ?thesis
    by (cases r) (simp_all add: handleEvent_def handleSubmitTest_resume_def split: option.split)
next
  case (AnswerSelect k now)
  with assms show ?thesis
    by (simp add: handleEvent_def handleAnswerSelect_def keyed_update split: option.split)
next
  case ClearAnswer
  with assms show ?thesis
    by (simp add: handleEvent_def handleClearAnswer_def keyed_delete split: option.split)
qed (simp_all add: handleEvent_def handleNext_def keyed_Nil
      handlePrevious_def handleQuestionJump_def handleSubmitTest_def handleTimeUp_def
      handleVisibilityChange_def handleBlur_def countWarning_def Let_def)

lemma handleEvent_monitor: "monitorAnswers (fst (handleEvent e s)) = monitorAnswers s"
proof (cases e)
  case (SubmitResponse r)
  then show ?thesis
    by (cases r) (simp_all add: handleEvent_def handleSubmitTest_resume_def split: option.split)
qed (simp_all add: handleEvent_def handleAnswerSelect_def handleClearAnswer_def handleNext_def
      handlePrevious_def handleQuestionJump_def handleSubmitTest_def handleTimeUp_def
      handleVisibilityChange_def handleBlur_def countWarning_def Let_def split: option.split)

lemma step_wellKeyed: "wellKeyed s \<Longrightarrow> wellKeyed (fst (step e s))"
  using handleEvent_keyed [of s e] handleEvent_monitor [of e s]
  by (auto simp: wellKeyed_def step_fst rerender_def)

lemma run_wellKeyed: "wellKeyed s \<Longrightarrow> wellKeyed (fst (run evs s))"
  by (induction evs arbitrary: s) (simp_all add: run_Cons step_wellKeyed del: run.simps(2))

lemma initial_wellKeyed: "wellKeyed (initial qs t0)"
  by (simp add: wellKeyed_def initial_def keyed_Nil)

lemma handleEvent_flagsAgree:
  assumes "flagsAgree s"
  shows "flagsAgree (fst (handleEvent e s))"
proof (cases e)
  case (SubmitResponse r)
  with assms show ?thesis
    by (cases r) (simp_all add: flagsAgree_def handleEvent_def handleSubmitTest_resume_def
        split: option.split)
qed (use assms in \<open>simp_all add: flagsAgree_def handleEvent_def handleAnswerSelect_def
      handleClearAnswer_def handleNext_def handlePrevious_def handleQuestionJump_def
      handleSubmitTest_def handleTimeUp_def handleVisibilityChange_def handleBlur_def
      countWarning_def Let_def split: option.split\<close>)

lemma step_flagsAgree: "flagsAgree s \<Longrightarrow> flagsAgree (fst (step e s))"
  using handleEvent_flagsAgree [of s e] by (simp add: flagsAgree_def step_fst rerender_fields)

lemma run_flagsAgree: "flagsAgree s \<Longrightarrow> flagsAgree (fst (run evs s))"
  by (induction evs arbitrary: s) (simp_all add: run_Cons step_flagsAgree del: run.simps(2))

lemma initial_flagsAgree: "flagsAgree (initial qs t0)"
  by (simp add: flagsAgree_def initial_def)

subsection \<open>The payload\<close>

lemma answersArray_length: "length (answersArray qs ans) = length qs"
  by (simp add: answersArray_def)

lemma answersArray_ids:
  "keyed ans \<Longrightarrow> map question_id (answersArray qs ans) = map questionId qs"
  by (auto simp: answersArray_def dest: keyed_map_of split: option.split)

lemma answersArray_nth:
  "i < length qs \<Longrightarrow>
     answersArray qs ans ! i =
       (case map_of ans (questionId (qs ! i)) of
          Some a \<Rightarrow> a
        | None \<Rightarrow> \<lparr>question_id = questionId (qs ! i), answer = '''', time_taken = 0\<rparr>)"
  by (simp add: answersArray_def)

lemma answersArray_empty:
  "answersArray qs [] = map (\<lambda>q. \<lparr>question_id = questionId q, answer = '''', time_taken = 0\<rparr>) qs"
  by (simp add: answersArray_def)

lemma handleEvent_payload:
  assumes "SubmitTest p \<in> set (snd (handleEvent e s))"
  shows "p = answersArray (questions s) (answers s) \<or> p = answersArray (questions s) (monitorAnswers s)"
  using assms
proof (cases e)
  case (SubmitResponse r)
  with assms show ?thesis
    by (cases r) (auto simp: handleEvent_def handleSubmitTest_resume_def split: option.splits if_splits)
qed (auto simp: handleEvent_def handleAnswerSelect_def handleClearAnswer_def handleNext_def
      handlePrevious_def handleQuestionJump_def handleSubmitTest_def handleTimeUp_def
      handleVisibilityChange_def handleBlur_def countWarning_def Let_def
      split: option.splits if_splits sum.splits)

lemma run_payloads:
  "wellKeyed s \<Longrightarrow> SubmitTest p \<in> set (snd (run evs s)) \<Longrightarrow>
     length p = length (questions s) \<and> map question_id p = map questionId (questions s)"
proof (induction evs arbitrary: s)
  case Nil
  then show ?case by simp
next
  case (Cons e es)
  from Cons.prems(2) consider
    (now) "SubmitTest p \<in> set (snd (step e s))"
    | (later) "SubmitTest p \<in> set (snd (run es (fst (step e s))))"
    by (auto simp: run_Cons simp del: run.simps(2))
  then show ?case
  proof cases
    case now
    then have "p = answersArray (questions s) (answers s)
             \<or> p = answersArray (questions s) (monitorAnswers s)"
      using handleEvent_payload by (simp add: step_snd)
    with Cons.prems(1) show ?thesis
      by (auto simp: wellKeyed_def answersArray_length answersArray_ids)
  next
    case later
    from Cons.IH [OF step_wellKeyed [OF Cons.prems(1)] later] show ?thesis
      by (simp add: step_questions)
  qed
qed

subsection \<open>Counting submission calls\<close>





subsection \<open>The focus monitor\<close>

lemma focus_noop:
  assumes "isSubmitting s \<or> testSubmitted s" and "isFocusLoss e"
  shows "step e s = (s, [])"
proof -
  have "handleEvent e s = (s, [])"
    using assms
    by (cases e) (auto simp: handleEvent_def handleVisibilityChange_def handleBlur_def)
  then show ?thesis by (simp add: step_def rerender_same)
qed

lemma focus_run_noop:
  assumes "isSubmitting s \<or> testSubmitted s" and "list_all isFocusLoss fs"
  shows "run fs s = (s, [])"
  using assms(2)
proof (induction fs)
  case Nil
  then show ?case by simp
next
  case (Cons f fs)
  then have "step f s = (s, [])" using focus_noop [OF assms(1)] by simp
  with Cons show ?case by simp
qed

lemma countWarning_step:
  assumes "\<not> isSubmitting s" "\<not> testSubmitted s" "isFocusLoss e"
  shows "step e s = (rerender s (fst (countWarning s)), snd (countWarning s))"
  using assms
  by (cases e) (simp_all add: step_def handleEvent_def handleVisibilityChange_def handleBlur_def
      case_prod_beta)

lemma countWarning_count: "warningCount (fst (countWarning s)) = warningCount s + 1"
  by (simp add: countWarning_def Let_def handleSubmitTest_def)

lemma countWarning_first:
  "warningCount s = 0 \<Longrightarrow> countWarning s = (s\<lparr>warningCount := 1\<rparr>, [Toast FirstWarning])"
  by (simp add: countWarning_def)

lemma countWarning_final:
  "warningCount s = 1 \<Longrightarrow> countWarning s = (s\<lparr>warningCount := 2\<rparr>, [Toast FinalWarning])"
  by (simp add: countWarning_def)

lemma countWarning_forced:
  assumes "2 \<le> warningCount s" "\<not> isSubmitting s" "\<not> testSubmitted s" "\<not> submissionStartedRef s"
  shows "countWarning s =
           (s\<lparr>warningCount := warningCount s + 1, submissionStartedRef := True,
              isSubmitting := True, pending := Some True\<rparr>,
            [Toast AutoSubmitted, SubmitTest (answersArray (questions s) (monitorAnswers s))])"
  using assms by (simp add: countWarning_def Let_def MAX_WARNINGS_def handleSubmitTest_def)

subsection \<open>After the awaited call\<close>


lemma resume_auto_threw:
  assumes "pending s = Some True"
  shows "handleSubmitTest_resume Threw s =
           (s\<lparr>testSubmitted := True, pending := None\<rparr>, [Toast AutoSubmitFailed, ShowResults])"
  using assms by (simp add: handleSubmitTest_resume_def)

lemma resume_auto_rejected:
  assumes "pending s = Some True"
  shows "handleSubmitTest_resume Rejected s =
           (s\<lparr>isSubmitting := False, submissionStartedRef := False, pending := None\<rparr>,
            [Toast SubmitFailed])"
  using assms by (simp add: handleSubmitTest_resume_def)






subsection \<open>The scoring rule\<close>

lemma percentage_range:
  assumes "percentage (raw_score c w) (c + w + n) = Some p"
  shows "0 \<le> p \<and> p \<le> 100"
proof -
  from assms have k: "0 < c + w + n"
    and p: "p = of_int (max (raw_score c w) 0) / of_int (int (c + w + n) * 4) * 100"
    by (auto simp: percentage_def split: if_splits)
  from k have "0 < int (c + w + n)" by (simp only: of_nat_0_less_iff)
  then have "0 < int (c + w + n) * 4" by (simp only: zero_less_mult_iff) simp
  then have den: "(0::rat) < of_int (int (c + w + n) * 4)" by (simp only: of_int_0_less_iff)
  have num0: "(0::rat) \<le> of_int (max (raw_score c w) 0)" by simp
  have "max (raw_score c w) 0 \<le> int (c + w + n) * 4"
    by (simp add: raw_score_def)
  then have num1: "(of_int (max (raw_score c w) 0) :: rat) \<le> of_int (int (c + w + n) * 4)"
    by (rule of_int_le_iff [THEN iffD2])
  define r :: rat where "r = of_int (max (raw_score c w) 0) / of_int (int (c + w + n) * 4)"
  have r0: "0 \<le> r" unfolding r_def using num0 den by (simp only: zero_le_divide_iff) simp
  have r1: "r \<le> 1" unfolding r_def using num1 den by (simp only: divide_le_eq_1) simp
  have pr: "p = r * 100" unfolding p r_def ..
  have lo: "0 \<le> p" unfolding pr using r0 by simp
  have hi: "p \<le> 100" unfolding pr using r1 by simp
  from lo hi show ?thesis ..
qed

lemma shown_agrees:
  "totalScoreShown (score c w n) = raw_score c w"
  "maxScoreShown (score c w n) = int (c + w + n) * 4"
  by (auto simp: totalScoreShown_def maxScoreShown_def wrongShown_def orElse_def truthy_def
      score_def raw_score_def)

section \<open>General facts about the session\<close>

text \<open>
  Every payload sent during a session has one entry per question, in the order of the
  questions, carrying exactly the questions' identifiers; and the payload built from a
  given \<open>answers\<close> object has, at each position, the stored answer of that question when
  there is one and the empty entry otherwise.
\<close>

lemma payload_one_entry_per_question:
  assumes "distinct (map questionId qs)" and "run evs (initial qs t0) = (s, out)"
  shows "(\<forall>p. SubmitTest p \<in> set out \<longrightarrow>
            length p = length qs \<and> map question_id p = map questionId qs
          \<and> distinct (map question_id p))
       \<and> questions s = qs
       \<and> length (answersArray (questions s) (answers s)) = length qs
       \<and> map question_id (answersArray (questions s) (answers s)) = map questionId qs
       \<and> distinct (map question_id (answersArray (questions s) (answers s)))
       \<and> (\<forall>i < length qs.
            answersArray (questions s) (answers s) ! i =
              (case map_of (answers s) (questionId (qs ! i)) of
                 Some userAnswer \<Rightarrow> userAnswer
               | None \<Rightarrow> \<lparr>question_id = questionId (qs ! i), answer = '''', time_taken = 0\<rparr>))"
proof -
  have qs: "questions s = qs"
    using run_questions [of evs "initial qs t0"] assms(2) by (simp add: initial_def)
  have wk: "wellKeyed s"
    using run_wellKeyed [OF initial_wellKeyed, of evs qs t0] assms(2) by simp
  have sent: "length p = length qs \<and> map question_id p = map questionId qs
          \<and> distinct (map question_id p)" if "SubmitTest p \<in> set out" for p
  proof -
    have "SubmitTest p \<in> set (snd (run evs (initial qs t0)))" using that assms(2) by simp
    from run_payloads [OF initial_wellKeyed this] show ?thesis
      using assms(1) by (simp add: initial_def)
  qed
  have ids: "map question_id (answersArray (questions s) (answers s)) = map questionId qs"
    using wk by (simp add: wellKeyed_def answersArray_ids qs)
  have entries: "\<forall>i < length qs.
            answersArray (questions s) (answers s) ! i =
              (case map_of (answers s) (questionId (qs ! i)) of
                 Some userAnswer \<Rightarrow> userAnswer
               | None \<Rightarrow> \<lparr>question_id = questionId (qs ! i), answer = '''', time_taken = 0\<rparr>)"
    by (simp add: qs answersArray_nth)
  show ?thesis
    using sent qs ids entries assms(1) by (simp add: answersArray_length)
qed

text \<open>
  The transitions of the focus monitor: one more on the counter for each counted focus
  loss in a session that is neither submitting nor submitted, the first and the final
  warning at 1 and 2, one submission call above \<open>MAX_WARNINGS\<close>, and no change while
  \<open>isSubmitting\<close> or \<open>testSubmitted\<close> holds.
\<close>

lemma focus_monitor_threshold:
  assumes "run evs (initial qs t0) = (s, out)" and "isFocusLoss e"
  shows "warningCount (initial qs t0) = 0
       \<and> (\<not> isSubmitting s \<and> \<not> testSubmitted s \<longrightarrow>
            warningCount (fst (step e s)) = warningCount s + 1
          \<and> (warningCount s = 0 \<longrightarrow>
                snd (step e s) = [Toast FirstWarning]
              \<and> \<not> isSubmitting (fst (step e s)) \<and> \<not> testSubmitted (fst (step e s)))
          \<and> (warningCount s = 1 \<longrightarrow>
                snd (step e s) = [Toast FinalWarning]
              \<and> \<not> isSubmitting (fst (step e s)) \<and> \<not> testSubmitted (fst (step e s)))
          \<and> (2 \<le> warningCount s \<longrightarrow>
                hd (snd (step e s)) = Toast AutoSubmitted
              \<and> submitCalls (snd (step e s)) = 1
              \<and> isSubmitting (fst (step e s)) \<and> pending (fst (step e s)) = Some True))
       \<and> (isSubmitting s \<or> testSubmitted s \<longrightarrow>
            step e s = (s, []) \<and> (list_all isFocusLoss fs \<longrightarrow> run fs s = (s, [])))"
proof -
  have start: "warningCount (initial qs t0) = 0" by (simp add: initial_def)
  have agree: "submissionStartedRef s = isSubmitting s"
    using run_flagsAgree [OF initial_flagsAgree, of evs qs t0] assms(1)
    by (simp add: flagsAgree_def)
  have active:
    "warningCount (fst (step e s)) = warningCount s + 1
     \<and> (warningCount s = 0 \<longrightarrow>
           snd (step e s) = [Toast FirstWarning]
         \<and> \<not> isSubmitting (fst (step e s)) \<and> \<not> testSubmitted (fst (step e s)))
     \<and> (warningCount s = 1 \<longrightarrow>
           snd (step e s) = [Toast FinalWarning]
         \<and> \<not> isSubmitting (fst (step e s)) \<and> \<not> testSubmitted (fst (step e s)))
     \<and> (2 \<le> warningCount s \<longrightarrow>
           hd (snd (step e s)) = Toast AutoSubmitted
         \<and> submitCalls (snd (step e s)) = 1
         \<and> isSubmitting (fst (step e s)) \<and> pending (fst (step e s)) = Some True)"
    if live: "\<not> isSubmitting s" "\<not> testSubmitted s"
  proof -
    note st = countWarning_step [OF live assms(2)]
    have noref: "\<not> submissionStartedRef s" using agree live by simp
    have c: "warningCount (fst (step e s)) = warningCount s + 1"
      by (simp add: st rerender_fields countWarning_count)
    have f: "snd (step e s) = [Toast FirstWarning]
         \<and> \<not> isSubmitting (fst (step e s)) \<and> \<not> testSubmitted (fst (step e s))"
      if "warningCount s = 0"
      using live by (simp add: st rerender_fields countWarning_first [OF that])
    have g: "snd (step e s) = [Toast FinalWarning]
         \<and> \<not> isSubmitting (fst (step e s)) \<and> \<not> testSubmitted (fst (step e s))"
      if "warningCount s = 1"
      using live by (simp add: st rerender_fields countWarning_final [OF that])
    have h: "hd (snd (step e s)) = Toast AutoSubmitted
         \<and> submitCalls (snd (step e s)) = 1
         \<and> isSubmitting (fst (step e s)) \<and> pending (fst (step e s)) = Some True"
      if "2 \<le> warningCount s"
      by (simp add: st rerender_fields countWarning_forced [OF that live noref] submitCalls_simps)
    show ?thesis using c f g h by blast
  qed
  have frozen: "step e s = (s, []) \<and> (list_all isFocusLoss fs \<longrightarrow> run fs s = (s, []))"
    if "isSubmitting s \<or> testSubmitted s"
    using focus_noop [OF that assms(2)] focus_run_noop [OF that] by blast
  show ?thesis using start active frozen by blast
qed

text \<open>
  With no answer in the \<open>answers\<close> object it reads, a manual \<open>handleSubmitTest\<close> sends
  nothing and changes nothing, and shows the validation notice when the session is in
  progress; \<open>handleSubmitTest(true)\<close> and \<open>handleTimeUp\<close> send the all-empty payload.
\<close>

lemma manual_submit_needs_an_answer:
  assumes "answers s = []"
  shows "fst (handleSubmitTest False confirmed s) = s
       \<and> submitCalls (snd (handleSubmitTest False confirmed s)) = 0
       \<and> (\<not> isSubmitting s \<and> \<not> testSubmitted s \<and> \<not> submissionStartedRef s \<longrightarrow>
            handleSubmitTest False confirmed s = (s, [Toast AnswerAtLeastOne])
          \<and> step (SubmitClick confirmed) s = (s, [Toast AnswerAtLeastOne])
          \<and> handleSubmitTest True confirmed s =
              (s\<lparr>submissionStartedRef := True, isSubmitting := True, pending := Some True\<rparr>,
               [SubmitTest (map (\<lambda>q. \<lparr>question_id = questionId q, answer = '''', time_taken = 0\<rparr>)
                                (questions s))])
          \<and> (\<not> timeUp s \<longrightarrow>
               handleTimeUp s =
                 (s\<lparr>submissionStartedRef := True, pending := Some True, timeUp := True,
                    isSubmitting := True\<rparr>,
                  [Toast TimeIsUp,
                   SubmitTest (map (\<lambda>q. \<lparr>question_id = questionId q, answer = '''', time_taken = 0\<rparr>)
                                   (questions s))])))"
proof -
  have same: "fst (handleSubmitTest False confirmed s) = s"
    "submitCalls (snd (handleSubmitTest False confirmed s)) = 0"
    using assms by (simp_all add: handleSubmitTest_def submitCalls_simps)
  have live:
    "handleSubmitTest False confirmed s = (s, [Toast AnswerAtLeastOne])
     \<and> step (SubmitClick confirmed) s = (s, [Toast AnswerAtLeastOne])
     \<and> handleSubmitTest True confirmed s =
         (s\<lparr>submissionStartedRef := True, isSubmitting := True, pending := Some True\<rparr>,
          [SubmitTest (map (\<lambda>q. \<lparr>question_id = questionId q, answer = '''', time_taken = 0\<rparr>)
                           (questions s))])
     \<and> (\<not> timeUp s \<longrightarrow>
          handleTimeUp s =
            (s\<lparr>submissionStartedRef := True, pending := Some True, timeUp := True,
               isSubmitting := True\<rparr>,
             [Toast TimeIsUp,
              SubmitTest (map (\<lambda>q. \<lparr>question_id = questionId q, answer = '''', time_taken = 0\<rparr>)
                              (questions s))]))"
    if flags: "\<not> isSubmitting s" "\<not> testSubmitted s" "\<not> submissionStartedRef s"
  proof -
    have manual: "handleSubmitTest False confirmed s = (s, [Toast AnswerAtLeastOne])"
      using assms flags by (simp add: handleSubmitTest_def)
    then have click: "step (SubmitClick confirmed) s = (s, [Toast AnswerAtLeastOne])"
      by (simp add: step_def handleEvent_def rerender_same)
    have auto: "handleSubmitTest True confirmed s =
             (s\<lparr>submissionStartedRef := True, isSubmitting := True, pending := Some True\<rparr>,
              [SubmitTest (map (\<lambda>q. \<lparr>question_id = questionId q, answer = '''', time_taken = 0\<rparr>)
                               (questions s))])"
      using assms flags by (simp add: handleSubmitTest_def answersArray_empty)
    have timer: "handleTimeUp s =
                (s\<lparr>submissionStartedRef := True, pending := Some True, timeUp := True,
                   isSubmitting := True\<rparr>,
                 [Toast TimeIsUp,
                  SubmitTest (map (\<lambda>q. \<lparr>question_id = questionId q, answer = '''', time_taken = 0\<rparr>)
                                  (questions s))])"
      if "\<not> timeUp s"
      using assms flags that by (simp add: handleTimeUp_def handleSubmitTest_def answersArray_empty)
    show ?thesis using manual click auto timer by blast
  qed
  show ?thesis using same live by blast
qed

section \<open>Claims about the session\<close>




text \<open>
  Claim C2 asks that every answered question carries the user's recorded answer in the
  payload. The focus listeners call the \<open>handleSubmitTest\<close> of the render in which the
  counter last changed, and its \<open>answers\<close> is the one of that render. At the run below
  (two warnings, then option A is chosen for question 1, then a third focus loss) the
  answer is recorded in the session, and the payload of the automatic submit carries
  question 1 as unanswered. The timer's submit from the same state carries the answer.
\<close>

theorem forced_submit_drops_recorded_answer:
  "map_of (answers (fst (run [Blur False, Blur False, AnswerSelect ''A'' 5000] (initial [q1, q2] 0))))
      (Some 1)
     = Some \<lparr>question_id = Some 1, answer = ''A'', time_taken = 5\<rparr>
   \<and> snd (step (Blur False)
            (fst (run [Blur False, Blur False, AnswerSelect ''A'' 5000] (initial [q1, q2] 0))))
     = [Toast AutoSubmitted,
        SubmitTest [\<lparr>question_id = Some 1, answer = '''', time_taken = 0\<rparr>,
                    \<lparr>question_id = Some 2, answer = '''', time_taken = 0\<rparr>]]
   \<and> snd (step TimeUp
            (fst (run [Blur False, Blur False, AnswerSelect ''A'' 5000] (initial [q1, q2] 0))))
     = [Toast TimeIsUp,
        SubmitTest [\<lparr>question_id = Some 1, answer = ''A'', time_taken = 5\<rparr>,
                    \<lparr>question_id = Some 2, answer = '''', time_taken = 0\<rparr>]]"
  by code_simp

text \<open>
  Claim C3 asks that a failed automatic submit never rolls the flags back and always
  ends in the submitted state. The \<open>catch\<close> branch does that; the branch for a reply with
  \<open>success\<close> false does not look at \<open>autoSubmit\<close>. At the run below (time runs out, the
  server answers with \<open>success: false\<close>) the flags are rolled back, the session is not
  submitted, no result view is shown, and \<open>timeUp\<close> stays set.
\<close>

theorem auto_submit_rejected_rolls_back:
  "snd (run [TimeUp, SubmitResponse Rejected] (initial [q1, q2] 0))
     = [Toast TimeIsUp,
        SubmitTest [\<lparr>question_id = Some 1, answer = '''', time_taken = 0\<rparr>,
                    \<lparr>question_id = Some 2, answer = '''', time_taken = 0\<rparr>],
        Toast SubmitFailed]
   \<and> \<not> submissionStartedRef (fst (run [TimeUp, SubmitResponse Rejected] (initial [q1, q2] 0)))
   \<and> \<not> isSubmitting (fst (run [TimeUp, SubmitResponse Rejected] (initial [q1, q2] 0)))
   \<and> \<not> testSubmitted (fst (run [TimeUp, SubmitResponse Rejected] (initial [q1, q2] 0)))
   \<and> timeUp (fst (run [TimeUp, SubmitResponse Rejected] (initial [q1, q2] 0)))"
  by code_simp

text \<open>
  Claim C4 asks that the forced submit is triggered exactly once and that the counter
  is frozen once submission has begun. At the run below the third focus loss forces a
  submit, the server answers with \<open>success: false\<close>, the flags are rolled back as in
  claim C3, and the next focus loss is counted (the counter goes from 3 to 4) and
  forces a second submit.
\<close>

theorem rejected_forced_submit_repeats:
  "snd (run [Blur False, Blur False, Blur False, SubmitResponse Rejected, Blur False]
          (initial [q1, q2] 0))
     = [Toast FirstWarning, Toast FinalWarning,
        Toast AutoSubmitted,
        SubmitTest [\<lparr>question_id = Some 1, answer = '''', time_taken = 0\<rparr>,
                    \<lparr>question_id = Some 2, answer = '''', time_taken = 0\<rparr>],
        Toast SubmitFailed,
        Toast AutoSubmitted,
        SubmitTest [\<lparr>question_id = Some 1, answer = '''', time_taken = 0\<rparr>,
                    \<lparr>question_id = Some 2, answer = '''', time_taken = 0\<rparr>]]
   \<and> warningCount (fst (run [Blur False, Blur False, Blur False] (initial [q1, q2] 0))) = 3
   \<and> isSubmitting (fst (run [Blur False, Blur False, Blur False] (initial [q1, q2] 0)))
   \<and> warningCount (fst (run [Blur False, Blur False, Blur False, SubmitResponse Rejected,
                              Blur False] (initial [q1, q2] 0))) = 4
   \<and> submitCalls (snd (run [Blur False, Blur False, Blur False, SubmitResponse Rejected,
                            Blur False] (initial [q1, q2] 0))) = 2"
  by code_simp

text \<open>
  Claim C6 asks that a forced submit in a session with no recorded answer sends the
  all-empty payload. At the run below option A is chosen for question 1, two focus
  losses follow, and the answer is cleared: the session has no recorded answer. The
  third focus loss sends a payload that still carries A for question 1, because the
  listeners read the \<open>answers\<close> of the render of the second warning. The timer's submit
  from the same state sends the all-empty payload.
\<close>

theorem forced_submit_after_clear_sends_old_answer:
  "answers (fst (run [AnswerSelect ''A'' 5000, Blur False, Blur False, ClearAnswer]
                   (initial [qa, qb] 0))) = []
   \<and> snd (step (Blur False)
            (fst (run [AnswerSelect ''A'' 5000, Blur False, Blur False, ClearAnswer]
                   (initial [qa, qb] 0))))
     = [Toast AutoSubmitted,
        SubmitTest [\<lparr>question_id = Some 1, answer = ''A'', time_taken = 5\<rparr>,
                    \<lparr>question_id = Some 2, answer = '''', time_taken = 0\<rparr>]]
   \<and> snd (step TimeUp
            (fst (run [AnswerSelect ''A'' 5000, Blur False, Blur False, ClearAnswer]
                   (initial [qa, qb] 0))))
     = [Toast TimeIsUp,
        SubmitTest [\<lparr>question_id = Some 1, answer = '''', time_taken = 0\<rparr>,
                    \<lparr>question_id = Some 2, answer = '''', time_taken = 0\<rparr>]]"
  by code_simp

text \<open>
  Claim C7, as the code has it. \<open>handleAnswerSelect\<close> does not look at any submission
  flag: whenever there is a current question it stores the chosen option under that
  question's identifier, replacing an earlier choice and adding no second entry, and
  changes nothing else of the session.
\<close>

theorem answer_select_upserts_in_every_state:
  assumes "currentQuestion s = Some q"
  shows "\<exists>s'. handleAnswerSelect optionKey now s = Inr s'
           \<and> map_of (answers s') =
               (map_of (answers s))
                 (questionId q \<mapsto> \<lparr>question_id = questionId q, answer = optionKey,
                                  time_taken = (now - testStartTime s) div 1000\<rparr>)
           \<and> s' = s\<lparr>answers := answers s'\<rparr>
           \<and> (distinct (map fst (answers s)) \<longrightarrow> distinct (map fst (answers s')))"
  using assms by (simp add: handleAnswerSelect_def update_conv' distinct_update)

theorem answer_select_upserts_in_every_state_witness:
  "currentQuestion (fst (run [AnswerSelect ''A'' 5000, SubmitClick True] (initial [q1, q2] 0))) = Some q1
   \<and> isSubmitting (fst (run [AnswerSelect ''A'' 5000, SubmitClick True] (initial [q1, q2] 0)))
   \<and> (\<exists>s'. handleAnswerSelect ''B'' 9000
              (fst (run [AnswerSelect ''A'' 5000, SubmitClick True] (initial [q1, q2] 0))) = Inr s'
          \<and> map_of (answers s') (Some 1) = Some \<lparr>question_id = Some 1, answer = ''B'', time_taken = 9\<rparr>
          \<and> map_of (answers s') (Some 2) = None)"
proof -
  define s where "s = fst (run [AnswerSelect ''A'' 5000, SubmitClick True] (initial [q1, q2] 0))"
  have c: "currentQuestion s = Some q1" unfolding s_def by code_simp
  have i: "isSubmitting s" unfolding s_def by code_simp
  have t: "testStartTime s = 0" unfolding s_def by code_simp
  have a: "map_of (answers s) (Some 2) = None" unfolding s_def by code_simp
  have k: "questionId q1 = Some 1" by code_simp
  from answer_select_upserts_in_every_state [OF c, of "''B''" 9000]
  obtain s' where s': "handleAnswerSelect ''B'' 9000 s = Inr s'"
    "map_of (answers s') =
               (map_of (answers s))
                 (questionId q1 \<mapsto> \<lparr>question_id = questionId q1, answer = ''B'',
                                  time_taken = (9000 - testStartTime s) div 1000\<rparr>)"
    by blast
  have "map_of (answers s') (Some 1) = Some \<lparr>question_id = Some 1, answer = ''B'', time_taken = 9\<rparr>"
    "map_of (answers s') (Some 2) = None"
    using a by (simp_all add: s'(2) k t)
  with s'(1) c i show ?thesis unfolding s_def by blast
qed

text \<open>
  Claim C7 as stated (selection is a no-op once the session is submitted) fails: while
  the submission is in flight, and also after it succeeded, selecting another option
  changes the stored answer.
\<close>

theorem select_after_submission_counterexample:
  "submissionStartedRef (fst (run [AnswerSelect ''A'' 5000, SubmitClick True] (initial [q1, q2] 0)))
   \<and> isSubmitting (fst (run [AnswerSelect ''A'' 5000, SubmitClick True] (initial [q1, q2] 0)))
   \<and> handleAnswerSelect ''B'' 9000
        (fst (run [AnswerSelect ''A'' 5000, SubmitClick True] (initial [q1, q2] 0)))
      \<noteq> Inr (fst (run [AnswerSelect ''A'' 5000, SubmitClick True] (initial [q1, q2] 0)))
   \<and> testSubmitted (fst (run [AnswerSelect ''A'' 5000, SubmitClick True, SubmitResponse Succeeded]
                            (initial [q1, q2] 0)))
   \<and> handleAnswerSelect ''B'' 9000
        (fst (run [AnswerSelect ''A'' 5000, SubmitClick True, SubmitResponse Succeeded]
               (initial [q1, q2] 0)))
      \<noteq> Inr (fst (run [AnswerSelect ''A'' 5000, SubmitClick True, SubmitResponse Succeeded]
                 (initial [q1, q2] 0)))"
  by code_simp




text \<open>
  Claim C9. For \<open>c\<close> correct, \<open>w\<close> wrong and \<open>n\<close> not attempted answers the raw score is
  \<open>4 * c - 1 * w\<close>, the maximum is \<open>4 * (c + w + n)\<close>, and for a non-empty test the
  percentage is \<open>max(raw, 0) / (4 * (c + w + n)) * 100\<close>; a percentage is never negative.
  The results page shows these same two scores, also through its fallback expressions.
  With ten wrong answers out of ten the raw score is -10 and the percentage 0.
\<close>

theorem neet_score_and_percentage:
  "neet_score (score c w n) = Some (4 * int c - 1 * int w)
   \<and> max_score (score c w n) = Some (int (c + w + n) * 4)
   \<and> (0 < c + w + n \<longrightarrow>
        score_percentage (score c w n)
          = Some (of_int (max (4 * int c - 1 * int w) 0) / of_int (int (c + w + n) * 4) * 100))
   \<and> (\<forall>p. score_percentage (score c w n) = Some p \<longrightarrow> 0 \<le> p)
   \<and> totalScoreShown (score c w n) = 4 * int c - 1 * int w
   \<and> maxScoreShown (score c w n) = int (c + w + n) * 4
   \<and> neet_score (score 0 10 0) = Some (- 10)
   \<and> score_percentage (score 0 10 0) = Some 0"
proof -
  have a: "neet_score (score c w n) = Some (4 * int c - 1 * int w)"
    "max_score (score c w n) = Some (int (c + w + n) * 4)"
    by (simp_all add: score_def raw_score_def)
  have b: "score_percentage (score c w n)
          = Some (of_int (max (4 * int c - 1 * int w) 0) / of_int (int (c + w + n) * 4) * 100)"
    if "0 < c + w + n"
    using that by (simp add: score_def raw_score_def percentage_def)
  have c: "0 \<le> p" if "score_percentage (score c w n) = Some p" for p
    using percentage_range [of c w n p] that by (simp add: score_def)
  have d: "totalScoreShown (score c w n) = 4 * int c - 1 * int w"
    "maxScoreShown (score c w n) = int (c + w + n) * 4"
    by (simp_all add: shown_agrees raw_score_def)
  have e: "neet_score (score 0 10 0) = Some (- 10)" "score_percentage (score 0 10 0) = Some 0"
    by (simp_all add: score_def raw_score_def percentage_def)
  show ?thesis using a b c d e by blast
qed

theorem neet_score_and_percentage_witness:
  "(0::nat) < 6 + 2 + 2
   \<and> neet_score (score 6 2 2) = Some 22
   \<and> max_score (score 6 2 2) = Some 40
   \<and> score_percentage (score 6 2 2) = Some 55
   \<and> totalScoreShown (score 6 2 2) = 22
   \<and> totalScoreShown (score 1 4 5) = 0
   \<and> (0::rat) \<le> 55"
proof -
  have k: "(0::nat) < 6 + 2 + 2" by simp
  from neet_score_and_percentage [of 6 2 2]
  have "neet_score (score 6 2 2) = Some (4 * int 6 - 1 * int 2)"
    "max_score (score 6 2 2) = Some (int (6 + 2 + 2) * 4)"
    "score_percentage (score 6 2 2)
          = Some (of_int (max (4 * int 6 - 1 * int 2) 0) / of_int (int (6 + 2 + 2) * 4) * 100)"
    "totalScoreShown (score 6 2 2) = 4 * int 6 - 1 * int 2"
    using k by blast+
  moreover have "totalScoreShown (score 1 4 5) = 0"
    using neet_score_and_percentage [of 1 4 5] by simp
  ultimately show ?thesis by simp
qed

end
